theory Spec2Isabelle
  imports Main "HOL-Library.AList"
begin

section \<open>JavaScript values as the gateway sees them\<close>

text \<open>
  Every value the handler of \<^verbatim>\<open>server.js\<close> touches comes out of a JSON parser
  (\<^verbatim>\<open>express.json\<close> for the request, \<^verbatim>\<open>JSON.parse\<close> for a backend event), so it
  is a tree of the six JSON kinds. A string is a \<open>char list\<close> holding the UTF-8
  encoding of the text (the handler only compares with ASCII patterns, cuts an ASCII
  prefix and concatenates). A Number is carried as the decimal text that
  \<^verbatim>\<open>Number.prototype.toString\<close> prints for it (\<open>''0''\<close> for both zeros): the handler
  only tests numbers for truthiness and appends them to strings, and both are read off
  that text. An object is the list of its own properties in enumeration order.
  \<^verbatim>\<open>undefined\<close> is \<open>None\<close> of \<open>json option\<close>.
\<close>

datatype json =
    JNull
  | JBool bool
  | JNum string
  | JStr string
  | JArr "json list"
  | JObj "(string \<times> json) list"

text \<open>\<^verbatim>\<open>ToBoolean\<close>: what \<^verbatim>\<open>!x\<close>, \<^verbatim>\<open>if (x)\<close> and \<^verbatim>\<open>x || y\<close> test.\<close>

fun truthy :: "json \<Rightarrow> bool" where
  "truthy JNull = False"
| "truthy (JBool b) = b"
| "truthy (JNum n) = (n \<noteq> ''0'' \<and> n \<noteq> ''NaN'')"
| "truthy (JStr s) = (s \<noteq> [])"
| "truthy (JArr xs) = True"
| "truthy (JObj kvs) = True"

fun truthy_opt :: "json option \<Rightarrow> bool" where
  "truthy_opt None = False"
| "truthy_opt (Some v) = truthy v"

text \<open>
  \<^verbatim>\<open>x.k\<close> for a value \<open>x\<close> that is not \<^verbatim>\<open>null\<close> and a key \<open>k\<close> that no prototype
  defines and that is neither an index nor \<^verbatim>\<open>length\<close> (\<^verbatim>\<open>choices\<close>, \<^verbatim>\<open>delta\<close>,
  \<^verbatim>\<open>content\<close>, \<^verbatim>\<open>messages\<close>, ...): only an object's own property answers.
\<close>

fun own :: "json \<Rightarrow> string \<Rightarrow> json option" where
  "own (JObj kvs) k = map_of kvs k"
| "own v k = None"

text \<open>
  \<^verbatim>\<open>ToString\<close>, as string concatenation (\<^verbatim>\<open>output += x\<close>) and a computed property
  key apply it; \<open>None\<close> is the \<^verbatim>\<open>TypeError\<close> that converting an object with an own,
  never callable, \<^verbatim>\<open>toString\<close> property throws. An array is joined with commas,
  \<^verbatim>\<open>null\<close> elements printing as the empty string.
\<close>

fun ToString :: "json \<Rightarrow> string option"
  and join_elems :: "json list \<Rightarrow> string option" where
  "ToString JNull = Some ''null''"
| "ToString (JBool b) = Some (if b then ''true'' else ''false'')"
| "ToString (JNum n) = Some n"
| "ToString (JStr s) = Some s"
| "ToString (JArr xs) = join_elems xs"
| "ToString (JObj kvs) =
     (if map_of kvs ''toString'' = None then Some ''[object Object]'' else None)"
| "join_elems [] = Some []"
| "join_elems (x # xs) =
     (case (if x = JNull then Some [] else ToString x) of
        None \<Rightarrow> None
      | Some s \<Rightarrow>
          (if xs = [] then Some s
           else (case join_elems xs of None \<Rightarrow> None | Some r \<Rightarrow> Some (s @ '','' @ r))))"

section \<open>Configuration\<close>

definition SHOW_REASONING :: bool where
  "SHOW_REASONING = False"

definition ENABLE_THINKING :: bool where
  "ENABLE_THINKING = True"

definition MODEL_MAP :: "(string \<times> string) list" where
  "MODEL_MAP =
    [(''gpt-3.5-turbo'', ''z-ai/glm5''),
     (''gpt-4'', ''moonshotai/kimi-k2.5''),
     (''gpt-4-turbo'', ''qwen/qwen3.5-397b-a17b''),
     (''gpt-4o'', ''z-ai/glm5''),
     (''claude-3-opus'', ''moonshotai/kimi-k2.5''),
     (''claude-3-sonnet'', ''qwen/qwen3.5-397b-a17b''),
     (''gemini-pro'', ''z-ai/glm5'')]"

text \<open>
  \<^verbatim>\<open>MODEL_MAP\<close> is an object literal, so \<^verbatim>\<open>MODEL_MAP[key]\<close> also finds what it
  inherits from \<^verbatim>\<open>Object.prototype\<close>: these names answer with a function (or, for
  \<^verbatim>\<open>__proto__\<close>, with the prototype object), all of them truthy.
\<close>

definition Object_prototype :: "string list" where
  "Object_prototype =
    [''constructor'', ''__defineGetter__'', ''__defineSetter__'', ''hasOwnProperty'',
     ''__lookupGetter__'', ''__lookupSetter__'', ''isPrototypeOf'',
     ''propertyIsEnumerable'', ''toString'', ''valueOf'', ''__proto__'',
     ''toLocaleString'']"

section \<open>Model resolver\<close>

text \<open>\<^verbatim>\<open>s.includes(p)\<close> and \<^verbatim>\<open>s.startsWith(p)\<close>.\<close>

definition startsWith :: "string \<Rightarrow> string \<Rightarrow> bool" where
  "startsWith s p = (take (length p) s = p)"

fun includes_str :: "string \<Rightarrow> string \<Rightarrow> bool" where
  "includes_str [] p = (p = [])"
| "includes_str (c # cs) p = (if startsWith (c # cs) p then True else includes_str cs p)"

text \<open>
  \<^verbatim>\<open>resolveFallback\<close>. \<open>toLowerCase\<close> stands for \<^verbatim>\<open>String.prototype.toLowerCase\<close>
  (the Unicode case mapping of the engine), taken as a parameter.
\<close>

definition resolveFallback :: "(string \<Rightarrow> string) \<Rightarrow> string \<Rightarrow> string" where
  "resolveFallback toLowerCase name =
    (let lower = toLowerCase name in
     if includes_str lower ''gpt-4'' \<or> includes_str lower ''opus'' \<or> includes_str lower ''405b''
     then ''meta/llama-3.1-405b-instruct''
     else if includes_str lower ''claude'' \<or> includes_str lower ''gemini'' \<or> includes_str lower ''70b''
     then ''meta/llama-3.1-70b-instruct''
     else ''meta/llama-3.1-8b-instruct'')"

text \<open>
  What \<^verbatim>\<open>nimModel\<close> holds: a backend model id, or a member of \<^verbatim>\<open>Object.prototype\<close>
  (named by its key) that the lookup inherited.
\<close>

datatype nim_model = ModelId string | ProtoMember string

text \<open>
  The value of \<^verbatim>\<open>MODEL_MAP[key]\<close>, \<open>None\<close> for \<^verbatim>\<open>undefined\<close>, and its truthiness
  (an own entry is a string, truthy when it is not empty; a function or object is).
\<close>

definition MODEL_MAP_get :: "string \<Rightarrow> nim_model option" where
  "MODEL_MAP_get key =
    (case map_of MODEL_MAP key of
       Some v \<Rightarrow> Some (ModelId v)
     | None \<Rightarrow> (if key \<in> set Object_prototype then Some (ProtoMember key) else None))"

fun nim_truthy :: "nim_model \<Rightarrow> bool" where
  "nim_truthy (ModelId v) = (v \<noteq> [])"
| "nim_truthy (ProtoMember k) = True"

text \<open>The resolver on a string name: \<^verbatim>\<open>MODEL_MAP[name] || resolveFallback(name)\<close>.\<close>

definition resolve :: "(string \<Rightarrow> string) \<Rightarrow> string \<Rightarrow> nim_model" where
  "resolve toLowerCase name =
    (case MODEL_MAP_get name of
       Some m \<Rightarrow> (if nim_truthy m then m else ModelId (resolveFallback toLowerCase name))
     | None \<Rightarrow> ModelId (resolveFallback toLowerCase name))"

text \<open>
  Line 88 on whatever JSON value the body's \<^verbatim>\<open>model\<close> is. A value that is not a string
  is converted to the property key; when the table has nothing truthy under it,
  \<^verbatim>\<open>resolveFallback\<close> calls \<^verbatim>\<open>toLowerCase\<close> on a value that has no such method.
  \<open>None\<close> is the \<^verbatim>\<open>TypeError\<close>.
\<close>

definition nimModel :: "(string \<Rightarrow> string) \<Rightarrow> json \<Rightarrow> nim_model option" where
  "nimModel toLowerCase m =
    (case m of
       JStr name \<Rightarrow> Some (resolve toLowerCase name)
     | _ \<Rightarrow>
        (case ToString m of
           None \<Rightarrow> None
         | Some key \<Rightarrow>
            (case MODEL_MAP_get key of
               Some v \<Rightarrow> (if nim_truthy v then Some v else None)
             | None \<Rightarrow> None)))"

section \<open>Request gateway and request builder\<close>

text \<open>The decimal text of a natural number, as a template literal prints it.\<close>

fun decimal :: "nat \<Rightarrow> string" where
  "decimal n =
    (if n < 10 then [char_of (48 + n)]
     else decimal (n div 10) @ [char_of (48 + n mod 10)])"

declare decimal.simps [simp del]

text \<open>The locals that line 71 destructures from \<^verbatim>\<open>req.body\<close>.\<close>

record chat_request =
  req_model :: json
  req_messages :: "json option"
  req_temperature :: "json option"
  req_max_tokens :: "json option"
  req_stream :: "json option"

definition destructure :: "json \<Rightarrow> chat_request" where
  "destructure body =
    \<lparr> req_model = (case own body ''model'' of None \<Rightarrow> JStr ''gpt-4o'' | Some v \<Rightarrow> v),
      req_messages = own body ''messages'',
      req_temperature = own body ''temperature'',
      req_max_tokens = own body ''max_tokens'',
      req_stream = own body ''stream'' \<rparr>"

text \<open>
  Line 79: \<^verbatim>\<open>!messages || !Array.isArray(messages) || messages.length === 0\<close>.
\<close>

definition messages_missing :: "json option \<Rightarrow> bool" where
  "messages_missing messages =
    (if truthy_opt messages
     then (case messages of Some (JArr xs) \<Rightarrow> xs = [] | _ \<Rightarrow> True)
     else True)"

record http_response =
  res_status :: nat
  res_body :: json

text \<open>The three error responses of the file: lines 80, 229 and 237.\<close>

definition bad_request_response :: http_response where
  "bad_request_response =
    \<lparr> res_status = 400,
      res_body = JObj [(''error'', JObj [(''message'', JStr ''messages array is required''),
                                         (''type'', JStr ''invalid_request_error'')])] \<rparr>"

definition proxy_error_response :: "nat \<Rightarrow> string \<Rightarrow> http_response" where
  "proxy_error_response status msg =
    \<lparr> res_status = status,
      res_body = JObj [(''error'', JObj [(''message'', JStr msg),
                                         (''type'', JStr ''proxy_error''),
                                         (''code'', JNum (decimal status))])] \<rparr>"

definition not_found_response :: http_response where
  "not_found_response =
    \<lparr> res_status = 404,
      res_body = JObj [(''error'', JObj [(''message'', JStr ''Not found''),
                                         (''type'', JStr ''invalid_request_error''),
                                         (''code'', JNum ''404'')])] \<rparr>"

text \<open>\<^verbatim>\<open>nimBody\<close>, lines 91 to 102.\<close>

record backend_request =
  nim_model :: nim_model
  nim_messages :: "json option"
  nim_temperature :: json
  nim_max_tokens :: json
  nim_stream :: bool
  nim_chat_template_kwargs :: "json option"

definition nimBody :: "nim_model \<Rightarrow> chat_request \<Rightarrow> backend_request" where
  "nimBody m r =
    \<lparr> nim_model = m,
      nim_messages = req_messages r,
      nim_temperature =
        (case req_temperature r of None \<Rightarrow> JNum ''0.6'' | Some JNull \<Rightarrow> JNum ''0.6'' | Some t \<Rightarrow> t),
      nim_max_tokens =
        (case req_max_tokens r of
           None \<Rightarrow> JNum ''4096''
         | Some n \<Rightarrow> (if truthy n then n else JNum ''4096'')),
      nim_stream = truthy_opt (req_stream r),
      nim_chat_template_kwargs =
        (if ENABLE_THINKING then Some (JObj [(''thinking'', JBool True)]) else None) \<rparr>"

text \<open>
  The handler up to the backend call: it answers 400, or throws a \<^verbatim>\<open>TypeError\<close>
  (destructuring \<^verbatim>\<open>null\<close>, or line 88), or posts \<^verbatim>\<open>nimBody\<close> to the backend.
\<close>

datatype gateway_step = Reject http_response | Throw | Post backend_request

definition chat_completions :: "(string \<Rightarrow> string) \<Rightarrow> json \<Rightarrow> gateway_step" where
  "chat_completions toLowerCase body =
    (if body = JNull then Throw
     else
       (let r = destructure body in
        if messages_missing (req_messages r) then Reject bad_request_response
        else (case nimModel toLowerCase (req_model r) of
                None \<Rightarrow> Throw
              | Some m \<Rightarrow> Post (nimBody m r))))"

section \<open>Non-streaming response mapper\<close>

text \<open>The two markers that wrap reasoning text.\<close>

definition think_open :: string where
  "think_open = ''<think>'' @ [CHR 0x0A]"

definition think_close :: string where
  "think_close = [CHR 0x0A] @ ''</think>'' @ [CHR 0x0A, CHR 0x0A]"

text \<open>
  \<^verbatim>\<open>x?.k\<close> on a value that may be \<^verbatim>\<open>undefined\<close> or \<^verbatim>\<open>null\<close>.
\<close>

definition opt_chain :: "json option \<Rightarrow> string \<Rightarrow> json option" where
  "opt_chain x k = (case x of None \<Rightarrow> None | Some JNull \<Rightarrow> None | Some v \<Rightarrow> own v k)"




section \<open>Stream transcoder\<close>

text \<open>
  What the handler writes to the client: \<open>Done\<close> is
  \<^verbatim>\<open>res.write("data: [DONE]\n\n")\<close> and \<open>Data d\<close> is
  \<^verbatim>\<open>res.write(`data: ${JSON.stringify(d)}\n\n`)\<close>. \<open>written\<close> gives the text, for a
  serialiser \<open>stringify\<close>.
\<close>

datatype sse_event = Done | Data json

definition sentinel_text :: string where
  "sentinel_text = ''data: [DONE]'' @ [CHR 0x0A, CHR 0x0A]"

definition written :: "(json \<Rightarrow> string) \<Rightarrow> sse_event \<Rightarrow> string" where
  "written stringify e =
    (case e of
       Done \<Rightarrow> sentinel_text
     | Data d \<Rightarrow> ''data: '' @ stringify d @ [CHR 0x0A, CHR 0x0A])"

text \<open>
  \<^verbatim>\<open>c?.[0]\<close> for a value \<open>c\<close> that is not \<^verbatim>\<open>undefined\<close>: the first element of an
  array, the property \<^verbatim>\<open>"0"\<close> of an object, the first character of a string (a string
  again: only its kind matters below), nothing otherwise.
\<close>

fun index0 :: "json \<Rightarrow> json option" where
  "index0 (JArr xs) = (case xs of [] \<Rightarrow> None | x # _ \<Rightarrow> Some x)"
| "index0 (JObj kvs) = map_of kvs ''0''"
| "index0 (JStr s) = (case s of [] \<Rightarrow> None | c # _ \<Rightarrow> Some (JStr [c]))"
| "index0 v = None"

text \<open>Line 141, \<^verbatim>\<open>data.choices?.[0]?.delta\<close>, for \<open>data\<close> that is not \<^verbatim>\<open>null\<close>.\<close>

definition delta_of :: "json \<Rightarrow> json option" where
  "delta_of data =
    (case own data ''choices'' of
       None \<Rightarrow> None
     | Some c \<Rightarrow> opt_chain (index0 c) ''delta'')"

text \<open>
  Lines 151 to 167: the output text and the new \<^verbatim>\<open>inReasoning\<close>. The text is \<open>None\<close>
  when a concatenation throws; the flag has then been assigned already, and the content
  branch after a failed reasoning branch is not run.
\<close>

definition merge ::
  "bool \<Rightarrow> bool \<Rightarrow> json option \<Rightarrow> json option \<Rightarrow> bool \<times> string option" where
  "merge show_reasoning inReasoning reasoning content =
    (let (in1, out1) =
       (case reasoning of
          None \<Rightarrow> (inReasoning, Some [])
        | Some r \<Rightarrow>
            (if show_reasoning \<and> truthy r
             then (True, (case ToString r of
                            None \<Rightarrow> None
                          | Some rs \<Rightarrow> Some ((if inReasoning then [] else think_open) @ rs)))
             else (inReasoning, Some [])))
     in
       (case out1 of
          None \<Rightarrow> (in1, None)
        | Some o1 \<Rightarrow>
            (case content of
               None \<Rightarrow> (in1, Some o1)
             | Some c \<Rightarrow>
                 (if truthy c
                  then (False, (case ToString c of
                                  None \<Rightarrow> None
                                | Some cs \<Rightarrow> Some (o1 @ (if in1 then think_close else []) @ cs)))
                  else (in1, Some o1)))))"

text \<open>
  Lines 170 to 177 on the delta: \<^verbatim>\<open>content\<close> is assigned the output when that is not
  empty, left alone when both fragments were falsy, and assigned the empty string
  otherwise; \<^verbatim>\<open>reasoning_content\<close> is deleted. Only an object has these properties:
  for any other truthy delta both fragments are \<^verbatim>\<open>undefined\<close> and nothing changes.
\<close>

definition update_delta :: "json \<Rightarrow> string \<Rightarrow> json" where
  "update_delta delta output =
    (case delta of
       JObj kvs \<Rightarrow>
         JObj (AList.delete ''reasoning_content''
           (if output \<noteq> [] then AList.update ''content'' (JStr output) kvs
            else if \<not> truthy_opt (map_of kvs ''content'')
                    \<and> \<not> truthy_opt (map_of kvs ''reasoning_content'') then kvs
            else AList.update ''content'' (JStr []) kvs))
     | _ \<Rightarrow> delta)"

text \<open>
  The delta is mutated in place, so \<^verbatim>\<open>data\<close> is serialised with the new delta where
  line 141 found the old one.
\<close>

fun set_prop :: "json \<Rightarrow> string \<Rightarrow> json \<Rightarrow> json" where
  "set_prop (JObj kvs) k v = JObj (AList.update k v kvs)"
| "set_prop x k v = x"

definition set_delta :: "json \<Rightarrow> json \<Rightarrow> json" where
  "set_delta data d =
    (case own data ''choices'' of
       Some (JArr (e # es)) \<Rightarrow> set_prop data ''choices'' (JArr (set_prop e ''delta'' d # es))
     | Some (JObj ckvs) \<Rightarrow>
         (case map_of ckvs ''0'' of
            Some e \<Rightarrow> set_prop data ''choices'' (JObj (AList.update ''0'' (set_prop e ''delta'' d) ckvs))
          | None \<Rightarrow> data)
     | _ \<Rightarrow> data)"

text \<open>
  The body of the \<^verbatim>\<open>try\<close> after line 140, on the parsed \<open>data\<close>: the new
  \<^verbatim>\<open>inReasoning\<close> and the event written, if any (none when a \<^verbatim>\<open>TypeError\<close> is caught).
\<close>

definition transcode_event :: "bool \<Rightarrow> bool \<Rightarrow> json \<Rightarrow> bool \<times> sse_event option" where
  "transcode_event show_reasoning inReasoning data =
    (if data = JNull then (inReasoning, None)
     else
       (case delta_of data of
          None \<Rightarrow> (inReasoning, Some (Data data))
        | Some delta \<Rightarrow>
            (if \<not> truthy delta then (inReasoning, Some (Data data))
             else
               (case merge show_reasoning inReasoning
                       (own delta ''reasoning_content'') (own delta ''content'') of
                  (in', None) \<Rightarrow> (in', None)
                | (in', Some output) \<Rightarrow>
                    (in', Some (Data (set_delta data (update_delta delta output))))))))"

text \<open>
  One pass of the loop of line 131. \<open>parse\<close> stands for \<^verbatim>\<open>JSON.parse\<close>, \<open>None\<close> being
  its \<^verbatim>\<open>SyntaxError\<close>.
\<close>

definition process_line ::
  "(string \<Rightarrow> json option) \<Rightarrow> bool \<Rightarrow> bool \<Rightarrow> string \<Rightarrow> bool \<times> sse_event list" where
  "process_line parse show_reasoning inReasoning line =
    (if \<not> startsWith line ''data: '' then (inReasoning, [])
     else if includes_str line ''[DONE]'' then (inReasoning, [Done])
     else
       (case parse (drop 6 line) of
          None \<Rightarrow> (inReasoning, [])
        | Some data \<Rightarrow>
            (case transcode_event show_reasoning inReasoning data of
               (in', None) \<Rightarrow> (in', [])
             | (in', Some e) \<Rightarrow> (in', [e]))))"

fun process_lines ::
  "(string \<Rightarrow> json option) \<Rightarrow> bool \<Rightarrow> bool \<Rightarrow> string list \<Rightarrow> bool \<times> sse_event list" where
  "process_lines parse show_reasoning inReasoning [] = (inReasoning, [])"
| "process_lines parse show_reasoning inReasoning (line # rest) =
     (case process_line parse show_reasoning inReasoning line of
        (in1, out1) \<Rightarrow>
          (case process_lines parse show_reasoning in1 rest of
             (in2, out2) \<Rightarrow> (in2, out1 @ out2)))"

text \<open>\<^verbatim>\<open>s.split("\n")\<close>: never empty, the last piece is what follows the last newline.\<close>

fun split_lines :: "string \<Rightarrow> string list" where
  "split_lines [] = [[]]"
| "split_lines (c # cs) =
     (if c = CHR 0x0A then [] # split_lines cs
      else (case split_lines cs of
              [] \<Rightarrow> [[c]]
            | l # ls \<Rightarrow> (c # l) # ls))"

text \<open>
  \<^verbatim>\<open>chunk.toString()\<close> on a \<^verbatim>\<open>Buffer\<close>: the bytes of the chunk are decoded as UTF-8,
  and what is not well-formed is replaced by U+FFFD the way the WHATWG decoder does it
  (one U+FFFD for a byte that cannot start a sequence, one for a sequence cut short by
  a byte that cannot continue it, or by the end of the chunk). The result is given in
  UTF-8 again, so well-formed bytes stay and U+FFFD is \<open>EF BF BD\<close>. The arguments
  are the number of continuation bytes still needed, the bounds of the next one, and
  the bytes of the sequence read so far.
\<close>

definition replacement :: string where
  "replacement = [CHR 0xEF, CHR 0xBF, CHR 0xBD]"

fun utf8_decode :: "nat \<Rightarrow> int \<Rightarrow> int \<Rightarrow> string \<Rightarrow> string \<Rightarrow> string" where
  "utf8_decode needed lo hi seen [] = (if needed = 0 then [] else replacement)"
| "utf8_decode needed lo hi seen (b # bs) =
     (let n = (of_char b :: int) in
      if needed = 0 then
        (if n \<le> 0x7F then b # utf8_decode 0 0x80 0xBF [] bs
         else if 0xC2 \<le> n \<and> n \<le> 0xDF then utf8_decode 1 0x80 0xBF [b] bs
         else if 0xE0 \<le> n \<and> n \<le> 0xEF
           then utf8_decode 2 (if n = 0xE0 then 0xA0 else 0x80) (if n = 0xED then 0x9F else 0xBF) [b] bs
         else if 0xF0 \<le> n \<and> n \<le> 0xF4
           then utf8_decode 3 (if n = 0xF0 then 0x90 else 0x80) (if n = 0xF4 then 0x8F else 0xBF) [b] bs
         else replacement @ utf8_decode 0 0x80 0xBF [] bs)
      else if n < lo \<or> hi < n then replacement @ utf8_decode 0 0x80 0xBF [] (b # bs)
      else if needed = 1 then seen @ [b] @ utf8_decode 0 0x80 0xBF [] bs
      else utf8_decode (needed - 1) 0x80 0xBF (seen @ [b]) bs)"

definition Buffer_toString :: "string \<Rightarrow> string" where
  "Buffer_toString chunk = utf8_decode 0 0x80 0xBF [] chunk"

text \<open>The two variables of lines 123 and 124, and the \<^verbatim>\<open>"data"\<close> handler.\<close>

record stream_state =
  buffer :: string
  inReasoning :: bool

definition initial_state :: stream_state where
  "initial_state = \<lparr> buffer = [], inReasoning = False \<rparr>"

definition on_data ::
  "(string \<Rightarrow> json option) \<Rightarrow> bool \<Rightarrow> stream_state \<Rightarrow> string \<Rightarrow> stream_state \<times> sse_event list" where
  "on_data parse show_reasoning st chunk =
    (let lines = split_lines (buffer st @ Buffer_toString chunk);
         rest = (if lines = [] then [] else last lines)
     in (case process_lines parse show_reasoning (inReasoning st) (butlast lines) of
           (in', out) \<Rightarrow> (\<lparr> buffer = rest, inReasoning = in' \<rparr>, out)))"

text \<open>
  The stream: every chunk goes through the handler in order; at the end of the source
  the response is ended and nothing more is written.
\<close>

fun transcode ::
  "(string \<Rightarrow> json option) \<Rightarrow> bool \<Rightarrow> stream_state \<Rightarrow> string list \<Rightarrow> sse_event list" where
  "transcode parse show_reasoning st [] = []"
| "transcode parse show_reasoning st (chunk # chunks) =
     (case on_data parse show_reasoning st chunk of
        (st', out) \<Rightarrow> out @ transcode parse show_reasoning st' chunks)"

section \<open>JSON.parse\<close>

text \<open>
  The transcoder is defined for any \<open>parse\<close>. For running it on concrete lines, this
  is \<^verbatim>\<open>JSON.parse\<close> after the JSON grammar of ECMA-404: a lexer, and a parser that
  keeps the open arrays and objects on a stack and reads each token once. The one
  thing left open is the conversion of a number literal to a Number (a rounding to an
  IEEE double): \<open>num\<close> maps the literal to the text kept in \<open>JNum\<close>.
\<close>

datatype token =
    TLBrace | TRBrace | TLBrack | TRBrack | TColon | TComma
  | TString string | TNumber string | TTrue | TFalse | TNull

definition is_ws :: "char \<Rightarrow> bool" where
  "is_ws c = (c = CHR 0x20 \<or> c = CHR 0x09 \<or> c = CHR 0x0A \<or> c = CHR 0x0D)"

definition is_digit :: "char \<Rightarrow> bool" where
  "is_digit c = (48 \<le> (of_char c :: int) \<and> (of_char c :: int) \<le> 57)"

definition digits_value :: "string \<Rightarrow> int" where
  "digits_value ds = foldl (\<lambda>n c. 10 * n + (of_char c - 48)) 0 ds"

text \<open>The value of a hexadecimal digit, and of the four digits of a \<^verbatim>\<open>\u\<close> escape.\<close>

definition hex_digit :: "char \<Rightarrow> int option" where
  "hex_digit c =
    (if is_digit c then Some (of_char c - 48)
     else if 97 \<le> (of_char c :: int) \<and> (of_char c :: int) \<le> 102 then Some (of_char c - 87)
     else if 65 \<le> (of_char c :: int) \<and> (of_char c :: int) \<le> 70 then Some (of_char c - 55)
     else None)"

definition hex4 :: "string \<Rightarrow> int option" where
  "hex4 ds =
    (case map hex_digit ds of
       [Some a, Some b, Some c, Some d] \<Rightarrow> Some (((a * 16 + b) * 16 + c) * 16 + d)
     | _ \<Rightarrow> None)"

text \<open>
  A string literal after its opening quote: \<open>string_end\<close> is the number of characters
  before the closing quote, \<open>unescape\<close> reads those characters into raw bytes and
  escaped UTF-16 code units (refusing a control character and a bad escape), and
  \<open>encode_units\<close> gives the text in UTF-8, a surrogate pair of escapes being one code
  point.
\<close>

fun string_end :: "string \<Rightarrow> nat option" where
  "string_end [] = None"
| "string_end (c # s) =
     (if c = CHR 0x22 then Some 0
      else if c = CHR 0x5C then
        (case s of
           [] \<Rightarrow> None
         | e # s' \<Rightarrow> (case string_end s' of None \<Rightarrow> None | Some n \<Rightarrow> Some (n + 2)))
      else (case string_end s of None \<Rightarrow> None | Some n \<Rightarrow> Some (n + 1)))"

datatype code_unit = Raw char | Esc int

definition simple_escape :: "char \<Rightarrow> int option" where
  "simple_escape e =
    (if e = CHR 0x22 then Some 0x22
     else if e = CHR 0x5C then Some 0x5C
     else if e = CHR ''/'' then Some 0x2F
     else if e = CHR ''b'' then Some 0x08
     else if e = CHR ''f'' then Some 0x0C
     else if e = CHR ''n'' then Some 0x0A
     else if e = CHR ''r'' then Some 0x0D
     else if e = CHR ''t'' then Some 0x09
     else None)"

fun unescape :: "string \<Rightarrow> code_unit list option" where
  "unescape [] = Some []"
| "unescape (c # s) =
     (if c = CHR 0x5C then
        (case s of
           [] \<Rightarrow> None
         | e # s' \<Rightarrow>
             (if e = CHR ''u'' then
                (case hex4 (take 4 s') of
                   None \<Rightarrow> None
                 | Some n \<Rightarrow>
                     (case unescape (drop 4 s') of None \<Rightarrow> None | Some us \<Rightarrow> Some (Esc n # us)))
              else
                (case simple_escape e of
                   None \<Rightarrow> None
                 | Some n \<Rightarrow>
                     (case unescape s' of None \<Rightarrow> None | Some us \<Rightarrow> Some (Esc n # us)))))
      else if (of_char c :: int) < 0x20 then None
      else (case unescape s of None \<Rightarrow> None | Some us \<Rightarrow> Some (Raw c # us)))"

definition utf8 :: "int \<Rightarrow> string" where
  "utf8 cp =
    (if cp < 0x80 then [char_of cp]
     else if cp < 0x800 then [char_of (0xC0 + cp div 64), char_of (0x80 + cp mod 64)]
     else if cp < 0x10000 then
       [char_of (0xE0 + cp div 4096), char_of (0x80 + cp div 64 mod 64), char_of (0x80 + cp mod 64)]
     else
       [char_of (0xF0 + cp div 262144), char_of (0x80 + cp div 4096 mod 64),
        char_of (0x80 + cp div 64 mod 64), char_of (0x80 + cp mod 64)])"

fun encode_units :: "code_unit list \<Rightarrow> string" where
  "encode_units [] = []"
| "encode_units (Raw c # us) = c # encode_units us"
| "encode_units (Esc h # Esc l # us) =
     (if 0xD800 \<le> h \<and> h \<le> 0xDBFF \<and> 0xDC00 \<le> l \<and> l \<le> 0xDFFF
      then utf8 (0x10000 + (h - 0xD800) * 0x400 + (l - 0xDC00)) @ encode_units us
      else utf8 h @ encode_units (Esc l # us))"
| "encode_units (Esc u # us) = utf8 u @ encode_units us"

text \<open>
  A number literal: \<^verbatim>\<open>-? (0 | [1-9][0-9]*) (. [0-9]+)? ([eE] [+-]? [0-9]+)?\<close>. The lexer
  takes the longest run of characters that occur in numbers, which must be one literal
  (a value is never followed by such a character).
\<close>

definition is_number_char :: "char \<Rightarrow> bool" where
  "is_number_char c =
    (is_digit c \<or> c = CHR ''-'' \<or> c = CHR ''+'' \<or> c = CHR ''.'' \<or> c = CHR ''e'' \<or> c = CHR ''E'')"

definition valid_exponent :: "string \<Rightarrow> bool" where
  "valid_exponent s =
    (case s of
       [] \<Rightarrow> True
     | c # r \<Rightarrow>
         (c = CHR ''e'' \<or> c = CHR ''E'')
         \<and> (let ds = (case r of
                         [] \<Rightarrow> []
                       | g # r' \<Rightarrow> (if g = CHR ''+'' \<or> g = CHR ''-'' then r' else r))
            in ds \<noteq> [] \<and> list_all is_digit ds))"

definition valid_fraction :: "string \<Rightarrow> bool" where
  "valid_fraction s =
    (case s of
       [] \<Rightarrow> True
     | c # r \<Rightarrow>
         (if c = CHR ''.''
          then takeWhile is_digit r \<noteq> [] \<and> valid_exponent (dropWhile is_digit r)
          else valid_exponent s))"

definition valid_number :: "string \<Rightarrow> bool" where
  "valid_number s =
    (let u = (case s of [] \<Rightarrow> [] | c # r \<Rightarrow> (if c = CHR ''-'' then r else s)) in
     (case u of
        [] \<Rightarrow> False
      | d # r \<Rightarrow>
          (if d = CHR ''0'' then valid_fraction r
           else is_digit d \<and> valid_fraction (dropWhile is_digit r))))"

definition cons_token :: "token \<Rightarrow> token list option \<Rightarrow> token list option" where
  "cons_token t r = (case r of None \<Rightarrow> None | Some ts \<Rightarrow> Some (t # ts))"

function (sequential) lex :: "string \<Rightarrow> token list option" where
  "lex [] = Some []"
| "lex (c # s) =
     (if is_ws c then lex s
      else if c = CHR ''{'' then cons_token TLBrace (lex s)
      else if c = CHR ''}'' then cons_token TRBrace (lex s)
      else if c = CHR ''['' then cons_token TLBrack (lex s)
      else if c = CHR '']'' then cons_token TRBrack (lex s)
      else if c = CHR '':'' then cons_token TColon (lex s)
      else if c = CHR '','' then cons_token TComma (lex s)
      else if c = CHR 0x22 then
        (case string_end s of
           None \<Rightarrow> None
         | Some n \<Rightarrow>
             (case unescape (take n s) of
                None \<Rightarrow> None
              | Some us \<Rightarrow> cons_token (TString (encode_units us)) (lex (drop (Suc n) s))))
      else if is_number_char c then
        (if valid_number (c # takeWhile is_number_char s)
         then cons_token (TNumber (c # takeWhile is_number_char s)) (lex (dropWhile is_number_char s))
         else None)
      else if startsWith (c # s) ''true'' then cons_token TTrue (lex (drop 3 s))
      else if startsWith (c # s) ''false'' then cons_token TFalse (lex (drop 4 s))
      else if startsWith (c # s) ''null'' then cons_token TNull (lex (drop 3 s))
      else None)"
  by pat_completeness auto
termination
  by (relation "measure length") (auto simp: le_imp_less_Suc length_dropWhile_le)

text \<open>
  Defining a property while an object is read: a key read again keeps its place and
  takes the new value; an array index (\<^verbatim>\<open>"0"\<close>, \<^verbatim>\<open>"17"\<close>, below \<open>2^32 - 1\<close>) goes among
  the indices, which come first in ascending order; any other key goes last.
\<close>

definition is_index :: "string \<Rightarrow> bool" where
  "is_index k =
    (k \<noteq> [] \<and> list_all is_digit k \<and> (k = ''0'' \<or> hd k \<noteq> CHR ''0'')
     \<and> length k \<le> 10 \<and> digits_value k < 4294967295)"

fun insert_index :: "string \<Rightarrow> json \<Rightarrow> (string \<times> json) list \<Rightarrow> (string \<times> json) list" where
  "insert_index k v [] = [(k, v)]"
| "insert_index k v (p # ps) =
     (if is_index (fst p) \<and> digits_value (fst p) < digits_value k
      then p # insert_index k v ps
      else (k, v) # p # ps)"

definition define_prop :: "string \<Rightarrow> json \<Rightarrow> (string \<times> json) list \<Rightarrow> (string \<times> json) list" where
  "define_prop k v kvs =
    (if map_of kvs k \<noteq> None then AList.update k v kvs
     else if is_index k then insert_index k v kvs
     else kvs @ [(k, v)])"

text \<open>
  The parser: what may come next, and the stack of open containers (an object with
  the key whose value is being read).
\<close>

datatype expect = Value | ValueOrClose | KeyOrClose | Key | Colon | CommaOrClose | Finished json

datatype frame = FArr "json list" | FObj "(string \<times> json) list" "string option"

fun complete :: "json \<Rightarrow> frame list \<Rightarrow> (expect \<times> frame list) option" where
  "complete v [] = Some (Finished v, [])"
| "complete v (FArr xs # st) = Some (CommaOrClose, FArr (xs @ [v]) # st)"
| "complete v (FObj kvs (Some k) # st) = Some (CommaOrClose, FObj (define_prop k v kvs) None # st)"
| "complete v (FObj kvs None # st) = None"

fun wants_value :: "expect \<Rightarrow> bool" where
  "wants_value Value = True"
| "wants_value ValueOrClose = True"
| "wants_value e = False"

fun wants_key :: "expect \<Rightarrow> bool" where
  "wants_key Key = True"
| "wants_key KeyOrClose = True"
| "wants_key e = False"

fun parse_step ::
  "(string \<Rightarrow> string) \<Rightarrow> expect \<Rightarrow> frame list \<Rightarrow> token \<Rightarrow> (expect \<times> frame list) option" where
  "parse_step num e st (TString s) =
     (if wants_value e then complete (JStr s) st
      else if wants_key e then
        (case st of
           FObj kvs None # st' \<Rightarrow> Some (Colon, FObj kvs (Some s) # st')
         | _ \<Rightarrow> None)
      else None)"
| "parse_step num e st (TNumber n) = (if wants_value e then complete (JNum (num n)) st else None)"
| "parse_step num e st TTrue = (if wants_value e then complete (JBool True) st else None)"
| "parse_step num e st TFalse = (if wants_value e then complete (JBool False) st else None)"
| "parse_step num e st TNull = (if wants_value e then complete JNull st else None)"
| "parse_step num e st TLBrack = (if wants_value e then Some (ValueOrClose, FArr [] # st) else None)"
| "parse_step num e st TLBrace = (if wants_value e then Some (KeyOrClose, FObj [] None # st) else None)"
| "parse_step num e st TRBrack =
     (case (e, st) of
        (ValueOrClose, FArr xs # st') \<Rightarrow> complete (JArr xs) st'
      | (CommaOrClose, FArr xs # st') \<Rightarrow> complete (JArr xs) st'
      | _ \<Rightarrow> None)"
| "parse_step num e st TRBrace =
     (case (e, st) of
        (KeyOrClose, FObj kvs None # st') \<Rightarrow> complete (JObj kvs) st'
      | (CommaOrClose, FObj kvs None # st') \<Rightarrow> complete (JObj kvs) st'
      | _ \<Rightarrow> None)"
| "parse_step num e st TComma =
     (case (e, st) of
        (CommaOrClose, FArr xs # st') \<Rightarrow> Some (Value, st)
      | (CommaOrClose, FObj kvs None # st') \<Rightarrow> Some (Key, st)
      | _ \<Rightarrow> None)"
| "parse_step num e st TColon = (case e of Colon \<Rightarrow> Some (Value, st) | _ \<Rightarrow> None)"

fun parse_tokens ::
  "(string \<Rightarrow> string) \<Rightarrow> expect \<Rightarrow> frame list \<Rightarrow> token list \<Rightarrow> json option" where
  "parse_tokens num e st [] = (case e of Finished v \<Rightarrow> Some v | _ \<Rightarrow> None)"
| "parse_tokens num e st (t # ts) =
     (case parse_step num e st t of
        None \<Rightarrow> None
      | Some (e', st') \<Rightarrow> parse_tokens num e' st' ts)"

definition JSON_parse :: "(string \<Rightarrow> string) \<Rightarrow> string \<Rightarrow> json option" where
  "JSON_parse num text =
    (case lex text of None \<Rightarrow> None | Some ts \<Rightarrow> parse_tokens num Value [] ts)"

section \<open>Reasoning spans\<close>

text \<open>
  The text a delta event carries is built from up to four pieces: an opening marker,
  a reasoning fragment, a closing marker and an ordinary-content fragment.
  \<open>merge_fragments\<close> names the pieces that lines 153 to 167 concatenate, and \<open>trace\<close>
  lists them for all the delta lines of a stream, in order (\<open>line_delta\<close> is the delta
  of a line that reaches line 147, \<open>stream_lines\<close> the complete lines of a stream).
  \<open>well_formed\<close> reads such a list: an opening marker comes only outside a span and
  is followed by reasoning text; inside a span come more reasoning text or a closing
  marker, and a closing marker is followed at once by ordinary content; ordinary
  content comes only outside a span. The list may end inside a span. \<open>event_text\<close>
  is the content string of the delta of an event written, and \<open>convertible\<close> says
  that appending a fragment to the output does not throw.
\<close>

datatype fragment = Open | Reasoning string | Close | Content string

fun render :: "fragment \<Rightarrow> string" where
  "render Open = think_open"
| "render (Reasoning t) = t"
| "render Close = think_close"
| "render (Content t) = t"

fun fragment_text :: "json option \<Rightarrow> string" where
  "fragment_text None = []"
| "fragment_text (Some v) = (case ToString v of None \<Rightarrow> [] | Some t \<Rightarrow> t)"

fun convertible :: "json option \<Rightarrow> bool" where
  "convertible None = True"
| "convertible (Some v) = (ToString v \<noteq> None)"

definition merge_fragments :: "bool \<Rightarrow> bool \<Rightarrow> json option \<Rightarrow> json option \<Rightarrow> fragment list" where
  "merge_fragments show_reasoning in_span reasoning content =
    (let shown = (show_reasoning \<and> truthy_opt reasoning) in
     (if shown
      then (if in_span then [] else [Open]) @ [Reasoning (fragment_text reasoning)]
      else [])
     @ (if truthy_opt content
        then (if shown \<or> in_span then [Close] else []) @ [Content (fragment_text content)]
        else []))"

definition line_delta :: "(string \<Rightarrow> json option) \<Rightarrow> string \<Rightarrow> json option" where
  "line_delta parse line =
    (if startsWith line ''data: '' \<and> \<not> includes_str line ''[DONE]'' then
       (case parse (drop 6 line) of
          None \<Rightarrow> None
        | Some data \<Rightarrow>
            (if data = JNull then None
             else (case delta_of data of
                     None \<Rightarrow> None
                   | Some d \<Rightarrow> (if truthy d then Some d else None))))
     else None)"

fun trace :: "(string \<Rightarrow> json option) \<Rightarrow> bool \<Rightarrow> bool \<Rightarrow> string list \<Rightarrow> fragment list" where
  "trace parse sr inR [] = []"
| "trace parse sr inR (l # ls) =
     (case line_delta parse l of
        None \<Rightarrow> trace parse sr inR ls
      | Some d \<Rightarrow>
          merge_fragments sr inR (own d ''reasoning_content'') (own d ''content'')
          @ trace parse sr
              (fst (merge sr inR (own d ''reasoning_content'') (own d ''content''))) ls)"

definition convertible_line :: "(string \<Rightarrow> json option) \<Rightarrow> string \<Rightarrow> bool" where
  "convertible_line parse l =
    (case line_delta parse l of
       None \<Rightarrow> True
     | Some d \<Rightarrow> convertible (own d ''reasoning_content'') \<and> convertible (own d ''content''))"

fun well_formed :: "bool \<Rightarrow> fragment list \<Rightarrow> bool" where
  "well_formed inR [] = True"
| "well_formed inR (Open # fs) =
     (\<not> inR \<and> (case fs of Reasoning t # fs' \<Rightarrow> well_formed True fs' | _ \<Rightarrow> False))"
| "well_formed inR (Reasoning t # fs) = (inR \<and> well_formed True fs)"
| "well_formed inR (Close # fs) =
     (inR \<and> (case fs of Content t # fs' \<Rightarrow> well_formed False fs' | _ \<Rightarrow> False))"
| "well_formed inR (Content t # fs) = (\<not> inR \<and> well_formed False fs)"

fun event_text :: "sse_event \<Rightarrow> string" where
  "event_text Done = []"
| "event_text (Data d) =
     (case delta_of d of
        None \<Rightarrow> []
      | Some delta \<Rightarrow> (case own delta ''content'' of Some (JStr t) \<Rightarrow> t | _ \<Rightarrow> []))"

definition stream_lines :: "string list \<Rightarrow> string list" where
  "stream_lines chunks = butlast (split_lines (concat (map Buffer_toString chunks)))"

fun is_object :: "json \<Rightarrow> bool" where
  "is_object (JObj kvs) = True"
| "is_object v = False"

section \<open>Sentinel lines and example inputs\<close>

text \<open>
  The lines that line 134 takes for the sentinel, and the requests, responses and
  streams on which the theorems below are run.
\<close>

definition is_sentinel :: "string \<Rightarrow> bool" where
  "is_sentinel line = (startsWith line ''data: '' \<and> includes_str line ''[DONE]'')"

definition example_body :: json where
  "example_body =
    JObj [(''model'', JStr ''gpt-4''),
          (''messages'', JArr [JObj [(''role'', JStr ''user''), (''content'', JStr ''hi'')]]),
          (''temperature'', JNum ''0''),
          (''max_tokens'', JNum ''256''),
          (''stream'', JBool True)]"

definition zero_tokens_body :: json where
  "zero_tokens_body =
    JObj [(''messages'', JArr [JObj [(''role'', JStr ''user''), (''content'', JStr ''hi'')]]),
          (''max_tokens'', JNum ''0'')]"






definition e_acute_event :: string where
  "e_acute_event =
    ''data: {\"choices\":[{\"delta\":{\"content\":\"'' @ [CHR 0xC3, CHR 0xA9] @ ''\"}}]}''
      @ [CHR 0x0A]"

definition e_acute_head :: string where
  "e_acute_head = ''data: {\"choices\":[{\"delta\":{\"content\":\"'' @ [CHR 0xC3]"

definition e_acute_tail :: string where
  "e_acute_tail = [CHR 0xA9] @ ''\"}}]}'' @ [CHR 0x0A]"

definition reasoning_line :: string where
  "reasoning_line = ''data: {\"choices\":[{\"delta\":{\"reasoning_content\":\"thinking...\"}}]}''"

definition answer_line :: string where
  "answer_line = ''data: {\"choices\":[{\"delta\":{\"content\":\"answer\"}}]}''"

definition done_line :: string where
  "done_line = ''data: [DONE]''"

definition example_stream :: string where
  "example_stream =
    reasoning_line @ [CHR 0x0A, CHR 0x0A] @ answer_line @ [CHR 0x0A, CHR 0x0A]
      @ done_line @ [CHR 0x0A, CHR 0x0A]"

definition content_event :: "string \<Rightarrow> sse_event" where
  "content_event text =
    Data (JObj [(''choices'', JArr [JObj [(''delta'', JObj [(''content'', JStr text)])]])])"

definition crlf_done_line :: string where
  "crlf_done_line = ''data: [DONE]'' @ [CHR 0x0D]"

definition done_content_line :: string where
  "done_content_line = ''data: {\"choices\":[{\"delta\":{\"content\":\"[DONE]\"}}]}''"

definition malformed_line :: string where
  "malformed_line = ''data: {oops''"

definition malformed_done_line :: string where
  "malformed_done_line = ''data: {oops [DONE]''"

section \<open>Model resolver: properties\<close>

lemma resolve_cases:
  "resolve lc name =
    (case map_of MODEL_MAP name of
       Some v \<Rightarrow> ModelId v
     | None \<Rightarrow> (if name \<in> set Object_prototype then ProtoMember name
                else ModelId (resolveFallback lc name)))"
  by (auto simp: resolve_def MODEL_MAP_get_def MODEL_MAP_def split: option.splits if_splits)

lemma resolve_table_entry:
  "map_of MODEL_MAP name = Some v \<Longrightarrow> resolve lc name = ModelId v"
  by (simp add: resolve_cases)

text \<open>
  C7 (model resolver). The lookup \<^verbatim>\<open>MODEL_MAP[name]\<close> runs on an object literal, so
  a name that \<^verbatim>\<open>Object.prototype\<close> defines finds an inherited member: for the name
  \<^verbatim>\<open>constructor\<close> the resolver returns that member (a function), not a backend model
  id, and the keyword fallback is never consulted. For every other name the resolver
  returns a backend id, a table entry before any fallback (\<open>resolve_cases\<close>).
\<close>

theorem resolve_inherited_name:
  "resolve lc ''constructor'' = ProtoMember ''constructor''
   \<and> resolve lc ''constructor'' \<noteq> ModelId (resolveFallback lc ''constructor'')"
  by (simp add: resolve_def MODEL_MAP_get_def MODEL_MAP_def Object_prototype_def)

section \<open>Request gateway: properties\<close>

lemma messages_present_not_null:
  "\<not> messages_missing (own body ''messages'') \<Longrightarrow> body \<noteq> JNull"
  by (auto simp: messages_missing_def)

lemma messages_missing_cases:
  "messages_missing m = (\<forall>x xs. m \<noteq> Some (JArr (x # xs)))"
proof (cases m)
  case None
  then show ?thesis by (simp add: messages_missing_def)
next
  case (Some v)
  show ?thesis
  proof (cases v)
    case (JArr ys)
    then show ?thesis using Some by (cases ys) (simp_all add: messages_missing_def)
  qed (simp_all add: Some messages_missing_def)
qed

text \<open>
  The two other error responses of the file carry the \<^verbatim>\<open>code\<close> field.
\<close>

lemma sibling_envelopes_have_code:
  "own (the (own (res_body not_found_response) ''error'')) ''code'' = Some (JNum ''404'')"
  "own (the (own (res_body (proxy_error_response st msg)) ''error'')) ''code''
     = Some (JNum (decimal st))"
  by (simp_all add: not_found_response_def proxy_error_response_def)

text \<open>
  C8 (missing messages). A body whose \<^verbatim>\<open>messages\<close> is absent, falsy, not an array or
  an empty array is answered with status 400 before anything is posted to the backend;
  the error object carries \<^verbatim>\<open>message\<close> and \<^verbatim>\<open>type\<close>, and no \<^verbatim>\<open>code\<close>.
\<close>

theorem missing_messages_rejected:
  assumes "body \<noteq> JNull" and "messages_missing (own body ''messages'')"
  shows "chat_completions lc body = Reject bad_request_response
    \<and> res_status bad_request_response = 400
    \<and> (\<exists>e m. own (res_body bad_request_response) ''error'' = Some e
          \<and> own e ''type'' = Some (JStr ''invalid_request_error'')
          \<and> own e ''message'' = Some (JStr m)
          \<and> own e ''code'' = None)"
  using assms by (simp add: chat_completions_def destructure_def bad_request_response_def)

theorem missing_messages_rejected_witness:
  "JObj [] \<noteq> JNull \<and> messages_missing (own (JObj []) ''messages'')
    \<and> chat_completions (\<lambda>s. s) (JObj []) = Reject bad_request_response
    \<and> own (the (own (res_body bad_request_response) ''error'')) ''code'' = None"
  using missing_messages_rejected [of "JObj []" "\<lambda>s. s"]
  by (simp add: messages_missing_def bad_request_response_def)

text \<open>
  C6 (request builder), as the code has it. For a body with a non-empty \<^verbatim>\<open>messages\<close>
  array and a string for its model, the request posted to the backend copies the
  messages; its temperature is the caller's unless that is absent or \<^verbatim>\<open>null\<close> (then
  0.6); its \<^verbatim>\<open>max_tokens\<close> is the caller's when that is truthy, and 4096 when it is
  absent or falsy (zero included); its \<^verbatim>\<open>stream\<close> is the truthiness of the caller's
  value.
\<close>

theorem request_builder_fields:
  assumes "\<not> messages_missing (own body ''messages'')"
    and "req_model (destructure body) = JStr name"
  shows "\<exists>r. chat_completions lc body = Post r
    \<and> nim_model r = resolve lc name
    \<and> nim_messages r = own body ''messages''
    \<and> nim_temperature r =
        (case own body ''temperature'' of
           None \<Rightarrow> JNum ''0.6'' | Some JNull \<Rightarrow> JNum ''0.6'' | Some t \<Rightarrow> t)
    \<and> nim_max_tokens r =
        (case own body ''max_tokens'' of
           None \<Rightarrow> JNum ''4096'' | Some n \<Rightarrow> (if truthy n then n else JNum ''4096''))
    \<and> nim_stream r = truthy_opt (own body ''stream'')"
  using assms messages_present_not_null [OF assms(1)]
  by (simp add: chat_completions_def nimBody_def nimModel_def destructure_def)

theorem request_builder_fields_witness:
  "\<not> messages_missing (own example_body ''messages'')
   \<and> req_model (destructure example_body) = JStr ''gpt-4''
   \<and> (\<exists>r. chat_completions (\<lambda>s. s) example_body = Post r
        \<and> nim_model r = ModelId ''moonshotai/kimi-k2.5''
        \<and> nim_temperature r = JNum ''0''
        \<and> nim_max_tokens r = JNum ''256''
        \<and> nim_stream r = True)"
proof -
  have a: "\<not> messages_missing (own example_body ''messages'')"
    by (simp add: example_body_def messages_missing_def)
  have b: "req_model (destructure example_body) = JStr ''gpt-4''"
    by (simp add: example_body_def destructure_def)
  have c: "resolve (\<lambda>s. s) ''gpt-4'' = ModelId ''moonshotai/kimi-k2.5''"
    by (simp add: resolve_def MODEL_MAP_get_def MODEL_MAP_def)
  show ?thesis
    using a b c request_builder_fields [OF a b, of "\<lambda>s. s"]
    by (auto simp: example_body_def)
qed

text \<open>
  The claim as stated fails for a caller who sends \<^verbatim>\<open>max_tokens: 0\<close>: the value is
  supplied, and the request posted carries 4096.
\<close>

theorem max_tokens_zero_counterexample:
  "own zero_tokens_body ''max_tokens'' = Some (JNum ''0'')
   \<and> (case chat_completions (\<lambda>s. s) zero_tokens_body of
         Post r \<Rightarrow> nim_max_tokens r = JNum ''4096'' \<and> nim_max_tokens r \<noteq> JNum ''0''
       | _ \<Rightarrow> False)"
  by (simp add: zero_tokens_body_def chat_completions_def destructure_def messages_missing_def
      nimModel_def resolve_def MODEL_MAP_get_def MODEL_MAP_def nimBody_def)

section \<open>Stream transcoder: line buffering\<close>

text \<open>
  The buffer of line 123 makes the events written depend only on the text that the
  decoded chunks add up to: they are the events of its complete lines, in order.
\<close>

lemma split_lines_nonempty: "split_lines s \<noteq> []"
  by (induction s) (auto split: list.splits)

lemma split_lines_append:
  "split_lines (a @ b) = butlast (split_lines a) @ split_lines (last (split_lines a) @ b)"
proof (induction a)
  case Nil
  show ?case by simp
next
  case (Cons c a)
  show ?case
  proof (cases "c = CHR 0x0A")
    case True
    then show ?thesis using Cons split_lines_nonempty [of a] by simp
  next
    case False
    obtain l ls where sa: "split_lines a = l # ls"
      using split_lines_nonempty [of a] by (cases "split_lines a") auto
    show ?thesis
    proof (cases ls)
      case Nil
      obtain m ms where sb: "split_lines (l @ b) = m # ms"
        using split_lines_nonempty [of "l @ b"] by (cases "split_lines (l @ b)") auto
      show ?thesis using False Cons sa Nil sb by simp
    next
      case (Cons x xs)
      then show ?thesis using False Cons.IH sa by simp
    qed
  qed
qed

lemma split_lines_no_newline:
  "CHR 0x0A \<notin> set s \<Longrightarrow> split_lines s = [s]"
  by (induction s) auto

lemma last_split_lines_no_newline:
  "CHR 0x0A \<notin> set (last (split_lines s))"
proof (induction s)
  case Nil
  show ?case by simp
next
  case (Cons c s)
  obtain l ls where sa: "split_lines s = l # ls"
    using split_lines_nonempty [of s] by (cases "split_lines s") auto
  show ?case using Cons sa by (cases ls) auto
qed

lemma process_lines_append:
  "process_lines p s r (xs @ ys) =
    (case process_lines p s r xs of
       (r1, o1) \<Rightarrow> (case process_lines p s r1 ys of (r2, o2) \<Rightarrow> (r2, o1 @ o2)))"
  by (induction xs arbitrary: r) (auto split: prod.splits)

lemma transcode_lines:
  "CHR 0x0A \<notin> set (buffer st) \<Longrightarrow>
   transcode p s st chunks =
    snd (process_lines p s (inReasoning st)
      (butlast (split_lines (buffer st @ concat (map Buffer_toString chunks)))))"
proof (induction chunks arbitrary: st)
  case Nil
  then show ?case by (simp add: split_lines_no_newline)
next
  case (Cons c cs)
  define d where "d = Buffer_toString c"
  define D where "D = concat (map Buffer_toString cs)"
  define ls where "ls = split_lines (buffer st @ d)"
  obtain r1 o1 where p1: "process_lines p s (inReasoning st) (butlast ls) = (r1, o1)"
    by (cases "process_lines p s (inReasoning st) (butlast ls)") auto
  have ne: "ls \<noteq> []" unfolding ls_def by (rule split_lines_nonempty)
  define st' where "st' = \<lparr> buffer = last ls, inReasoning = r1 \<rparr>"
  have od: "on_data p s st c = (st', o1)"
    using p1 ne by (simp add: on_data_def Let_def ls_def d_def st'_def)
  have nl: "CHR 0x0A \<notin> set (buffer st')"
    unfolding st'_def ls_def by (simp add: last_split_lines_no_newline)
  have ih: "transcode p s st' cs =
      snd (process_lines p s r1 (butlast (split_lines (last ls @ D))))"
    using Cons.IH [OF nl] by (simp add: st'_def D_def)
  have sp: "split_lines (buffer st @ d @ D) = butlast ls @ split_lines (last ls @ D)"
    using split_lines_append [of "buffer st @ d" D] by (simp add: ls_def)
  have bl: "butlast (split_lines (buffer st @ d @ D))
      = butlast ls @ butlast (split_lines (last ls @ D))"
    unfolding sp using split_lines_nonempty [of "last ls @ D"] by (simp add: butlast_append)
  show ?case
    using od ih bl p1
    by (simp add: d_def [symmetric] D_def [symmetric] process_lines_append split: prod.splits)
qed

lemma chunking_irrelevant_after_decoding:
  assumes "concat (map Buffer_toString cs1) = concat (map Buffer_toString cs2)"
  shows "transcode p s initial_state cs1 = transcode p s initial_state cs2"
  using assms by (simp add: transcode_lines initial_state_def)

lemma chunking_irrelevant_well_formed:
  assumes "concat cs1 = concat cs2"
    and "list_all (\<lambda>c. Buffer_toString c = c) cs1"
    and "list_all (\<lambda>c. Buffer_toString c = c) cs2"
  shows "transcode p s initial_state cs1 = transcode p s initial_state cs2"
proof -
  have "map Buffer_toString cs1 = cs1" "map Buffer_toString cs2 = cs2"
    using assms(2,3) by (simp_all add: list_all_iff map_idI)
  then show ?thesis
    using assms(1) chunking_irrelevant_after_decoding [of cs1 cs2] by simp
qed

lemma ascii_chunk_decodes_to_itself:
  "list_all (\<lambda>b. (of_char b :: int) \<le> 0x7F) c \<Longrightarrow> Buffer_toString c = c"
  unfolding Buffer_toString_def
  by (induction c) (simp_all add: Let_def)

lemma chunking_irrelevant_ascii:
  assumes "concat cs1 = concat cs2"
    and "list_all (list_all (\<lambda>b. (of_char b :: int) \<le> 0x7F)) cs1"
    and "list_all (list_all (\<lambda>b. (of_char b :: int) \<le> 0x7F)) cs2"
  shows "transcode p s initial_state cs1 = transcode p s initial_state cs2"
proof -
  have "list_all (\<lambda>c. Buffer_toString c = c) cs1" "list_all (\<lambda>c. Buffer_toString c = c) cs2"
    using assms(2,3) by (simp_all add: list_all_iff ascii_chunk_decodes_to_itself)
  then show ?thesis
    using assms(1) chunking_irrelevant_well_formed [of cs1 cs2 p s] by blast
qed

lemma e_acute_whole:
  "transcode (JSON_parse num) SHOW_REASONING initial_state [e_acute_event]
    = [Data (JObj [(''choices'', JArr [JObj [(''delta'',
         JObj [(''content'', JStr [CHR 0xC3, CHR 0xA9])])]])])]"
  by code_simp

lemma e_acute_split:
  "transcode (JSON_parse num) SHOW_REASONING initial_state [e_acute_head, e_acute_tail]
    = [Data (JObj [(''choices'', JArr [JObj [(''delta'',
         JObj [(''content'', JStr [CHR 0xEF, CHR 0xBF, CHR 0xBD, CHR 0xEF, CHR 0xBF, CHR 0xBD])])]])])]"
  by code_simp

text \<open>
  C1 (chunk-boundary independence). Each chunk is decoded on its own, so a chunk
  boundary inside the two bytes of a character turns them into two U+FFFD: the same
  backend bytes, sent whole and sent split inside the UTF-8 encoding of an e with acute
  accent, give different events. Splits between characters, in the middle of a line
  or not, change nothing (\<open>chunking_irrelevant_well_formed\<close>), so no split of an
  ASCII stream does (\<open>chunking_irrelevant_ascii\<close>).
\<close>

theorem split_character_changes_output:
  "concat [e_acute_head, e_acute_tail] = concat [e_acute_event]
   \<and> transcode (JSON_parse num) SHOW_REASONING initial_state [e_acute_event]
      = [Data (JObj [(''choices'', JArr [JObj [(''delta'',
           JObj [(''content'', JStr [CHR 0xC3, CHR 0xA9])])]])])]
   \<and> transcode (JSON_parse num) SHOW_REASONING initial_state [e_acute_head, e_acute_tail]
      = [Data (JObj [(''choices'', JArr [JObj [(''delta'',
           JObj [(''content'', JStr [CHR 0xEF, CHR 0xBF, CHR 0xBD, CHR 0xEF, CHR 0xBF, CHR 0xBD])])]])])]
   \<and> transcode (JSON_parse num) SHOW_REASONING initial_state [e_acute_head, e_acute_tail]
      \<noteq> transcode (JSON_parse num) SHOW_REASONING initial_state [e_acute_event]"
proof -
  have c: "concat [e_acute_head, e_acute_tail] = concat [e_acute_event]"
    by (simp add: e_acute_head_def e_acute_tail_def e_acute_event_def)
  show ?thesis
    using c unfolding e_acute_whole e_acute_split by simp
qed

section \<open>Stream transcoder: lines\<close>

text \<open>
  C3 (streaming merge example). With reasoning shown, the reasoning line, the content
  line and the sentinel line give two delta events, with content
  \<^verbatim>\<open><think>\nthinking...\<close> and \<^verbatim>\<open>\n</think>\n\nanswer\<close>, and then the sentinel; the
  same when the three lines arrive in one chunk, each followed by a blank line.
\<close>

theorem streaming_merge_example:
  "process_lines (JSON_parse num) True False [reasoning_line, answer_line, done_line]
     = (False, [content_event ''<think>\<newline>thinking...'',
                content_event ''\<newline></think>\<newline>\<newline>answer'',
                Done])
   \<and> transcode (JSON_parse num) True initial_state [example_stream]
     = [content_event ''<think>\<newline>thinking...'',
        content_event ''\<newline></think>\<newline>\<newline>answer'',
        Done]
   \<and> ''<think>\<newline>thinking...'' @ ''\<newline></think>\<newline>\<newline>answer''
     = ''<think>\<newline>thinking...\<newline></think>\<newline>\<newline>answer''
   \<and> written stringify Done = ''data: [DONE]\<newline>\<newline>''"
proof -
  have a: "process_lines (JSON_parse num) True False [reasoning_line, answer_line, done_line]
     = (False, [content_event ''<think>\<newline>thinking...'',
                content_event ''\<newline></think>\<newline>\<newline>answer'',
                Done])"
    by code_simp
  have b: "transcode (JSON_parse num) True initial_state [example_stream]
     = [content_event ''<think>\<newline>thinking...'',
        content_event ''\<newline></think>\<newline>\<newline>answer'',
        Done]"
    by code_simp
  show ?thesis using a b by (simp add: written_def sentinel_text_def)
qed

lemma process_line_sentinel:
  "is_sentinel l \<Longrightarrow> process_line parse sr r l = (r, [Done])"
  by (simp add: process_line_def is_sentinel_def)

lemma transcode_event_no_done:
  "transcode_event sr r d = (r', Some e) \<Longrightarrow> e \<noteq> Done"
  by (auto simp: transcode_event_def split: if_splits option.splits prod.splits)

lemma process_line_other:
  "\<not> is_sentinel l \<Longrightarrow> Done \<notin> set (snd (process_line parse sr r l))"
  by (auto simp: process_line_def is_sentinel_def split: option.splits prod.splits
      dest: transcode_event_no_done)

lemma count_sentinels:
  "length (filter (\<lambda>e. e = Done) (snd (process_lines parse sr r ls)))
     = length (filter is_sentinel ls)"
proof (induction ls arbitrary: r)
  case Nil
  show ?case by simp
next
  case (Cons l ls)
  obtain r1 o1 where p1: "process_line parse sr r l = (r1, o1)"
    by (cases "process_line parse sr r l") auto
  obtain r2 o2 where p2: "process_lines parse sr r1 ls = (r2, o2)"
    by (cases "process_lines parse sr r1 ls") auto
  have ih: "length (filter (\<lambda>e. e = Done) o2) = length (filter is_sentinel ls)"
    using Cons [of r1] p2 by simp
  show ?case
  proof (cases "is_sentinel l")
    case True
    have "o1 = [Done]"
      using p1 process_line_sentinel [OF True, of parse sr r] by simp
    then show ?thesis using True p1 p2 ih by simp
  next
    case False
    have "filter (\<lambda>e. e = Done) o1 = []"
      using process_line_other [OF False, of parse sr r] p1 by (auto simp: filter_empty_conv)
    then show ?thesis using False p1 p2 ih by simp
  qed
qed

text \<open>
  C4 (sentinel pass-through), as the code has it. A line recognised as the sentinel
  makes the handler write the literal \<^verbatim>\<open>data: [DONE]\<close> event, whatever else the line
  holds; the state is unchanged and the remaining lines are processed as before; and
  the events written for any lines hold one sentinel per sentinel line.
\<close>

theorem sentinel_forwarded:
  assumes "startsWith l ''data: ''" and "includes_str l ''[DONE]''"
  shows "process_lines parse sr r (l # rest)
           = (fst (process_lines parse sr r rest), Done # snd (process_lines parse sr r rest))
    \<and> written stringify Done = ''data: [DONE]\<newline>\<newline>''
    \<and> length (filter (\<lambda>e. e = Done) (snd (process_lines parse sr r ls)))
         = length (filter is_sentinel ls)"
proof -
  have s: "is_sentinel l" using assms by (simp add: is_sentinel_def)
  have a: "process_lines parse sr r (l # rest)
      = (fst (process_lines parse sr r rest), Done # snd (process_lines parse sr r rest))"
    using process_line_sentinel [OF s, of parse sr r] by (simp split: prod.splits)
  have b: "written stringify Done = ''data: [DONE]\<newline>\<newline>''"
    by (simp add: written_def sentinel_text_def)
  show ?thesis using a b count_sentinels by blast
qed

theorem sentinel_forwarded_witness:
  "startsWith done_line ''data: '' \<and> includes_str done_line ''[DONE]''
   \<and> process_lines (JSON_parse (\<lambda>s. s)) True False [done_line, answer_line, done_line]
       = (False, [Done, content_event ''answer'', Done])"
proof -
  have a: "startsWith done_line ''data: ''" by code_simp
  have b: "includes_str done_line ''[DONE]''" by code_simp
  have r: "process_lines (JSON_parse (\<lambda>s. s)) True False [answer_line, done_line]
      = (False, [content_event ''answer'', Done])"
    by code_simp
  have t: "process_lines (JSON_parse (\<lambda>s. s)) True False (done_line # [answer_line, done_line])
      = (fst (process_lines (JSON_parse (\<lambda>s. s)) True False [answer_line, done_line]),
         Done # snd (process_lines (JSON_parse (\<lambda>s. s)) True False [answer_line, done_line]))"
    using sentinel_forwarded [OF a b, of "JSON_parse (\<lambda>s. s)" True False
        "[answer_line, done_line]" "\<lambda>d. []" "[]"]
    by blast
  show ?thesis using a b unfolding t r by simp
qed

text \<open>
  The claim as stated fails on a sentinel line that is not exactly \<^verbatim>\<open>data: [DONE]\<close>,
  such as one that ends in a carriage return: what is written is not the line.
\<close>

theorem sentinel_not_verbatim_counterexample:
  "startsWith crlf_done_line ''data: '' \<and> includes_str crlf_done_line ''[DONE]''
   \<and> process_line (JSON_parse (\<lambda>s. s)) SHOW_REASONING False crlf_done_line = (False, [Done])
   \<and> written (\<lambda>d. []) Done \<noteq> crlf_done_line @ [CHR 0x0A, CHR 0x0A]"
proof -
  have a: "startsWith crlf_done_line ''data: ''" by code_simp
  have b: "includes_str crlf_done_line ''[DONE]''" by code_simp
  have c: "process_line (JSON_parse (\<lambda>s. s)) SHOW_REASONING False crlf_done_line = (False, [Done])"
    by code_simp
  have d: "written (\<lambda>d. []) Done \<noteq> crlf_done_line @ [CHR 0x0A, CHR 0x0A]"
    by (simp add: written_def sentinel_text_def crlf_done_line_def)
  show ?thesis using a b c d by simp
qed

text \<open>
  C9 (sentinel by substring). A data line that contains \<^verbatim>\<open>[DONE]\<close> anywhere is not
  parsed: whatever \<^verbatim>\<open>JSON.parse\<close> would make of its payload, the handler writes the
  literal sentinel event and nothing else, and keeps its state.
\<close>

theorem sentinel_by_substring:
  assumes "startsWith l ''data: ''" and "includes_str l ''[DONE]''"
  shows "process_line parse sr r l = (r, [Done])
    \<and> written stringify Done = ''data: [DONE]\<newline>\<newline>''"
  using assms process_line_sentinel [of l parse sr r]
  by (simp add: is_sentinel_def written_def sentinel_text_def)

theorem sentinel_by_substring_witness:
  "startsWith done_content_line ''data: '' \<and> includes_str done_content_line ''[DONE]''
   \<and> JSON_parse (\<lambda>s. s) (drop 6 done_content_line)
       = Some (JObj [(''choices'', JArr [JObj [(''delta'', JObj [(''content'', JStr ''[DONE]'')])]])])
   \<and> process_line (JSON_parse (\<lambda>s. s)) SHOW_REASONING False done_content_line = (False, [Done])"
proof -
  have a: "startsWith done_content_line ''data: ''" by code_simp
  have b: "includes_str done_content_line ''[DONE]''" by code_simp
  have c: "JSON_parse (\<lambda>s. s) (drop 6 done_content_line)
       = Some (JObj [(''choices'', JArr [JObj [(''delta'', JObj [(''content'', JStr ''[DONE]'')])]])])"
    by code_simp
  show ?thesis
    using a b c sentinel_by_substring [OF a b, of "JSON_parse (\<lambda>s. s)" SHOW_REASONING False]
    by simp
qed

text \<open>
  C5 (malformed lines), as the code has it. A data line that does not contain
  \<^verbatim>\<open>[DONE]\<close> and whose payload \<^verbatim>\<open>JSON.parse\<close> refuses writes nothing and leaves the
  state alone: the lines around it are processed as if it were not there.
\<close>

theorem malformed_line_dropped:
  assumes "startsWith l ''data: ''" and "\<not> includes_str l ''[DONE]''"
    and "parse (drop 6 l) = None"
  shows "process_line parse sr r l = (r, [])
    \<and> process_lines parse sr r0 (before @ l # after) = process_lines parse sr r0 (before @ after)"
proof -
  have a: "\<And>r. process_line parse sr r l = (r, [])"
    using assms by (simp add: process_line_def)
  have b: "\<And>r. process_lines parse sr r (l # after) = process_lines parse sr r after"
    using a by (simp split: prod.splits)
  show ?thesis using a b by (simp add: process_lines_append split: prod.splits)
qed

theorem malformed_line_dropped_witness:
  "startsWith malformed_line ''data: '' \<and> \<not> includes_str malformed_line ''[DONE]''
   \<and> JSON_parse (\<lambda>s. s) (drop 6 malformed_line) = None
   \<and> process_lines (JSON_parse (\<lambda>s. s)) True False
        ([reasoning_line] @ malformed_line # [answer_line, done_line])
       = (False, [content_event ''<think>\<newline>thinking...'',
                  content_event ''\<newline></think>\<newline>\<newline>answer'',
                  Done])"
proof -
  have a: "startsWith malformed_line ''data: ''" by code_simp
  have b: "\<not> includes_str malformed_line ''[DONE]''" by code_simp
  have c: "JSON_parse (\<lambda>s. s) (drop 6 malformed_line) = None" by code_simp
  have r: "process_lines (JSON_parse (\<lambda>s. s)) True False ([reasoning_line] @ [answer_line, done_line])
       = (False, [content_event ''<think>\<newline>thinking...'',
                  content_event ''\<newline></think>\<newline>\<newline>answer'',
                  Done])"
    by code_simp
  have t: "process_lines (JSON_parse (\<lambda>s. s)) True False
        ([reasoning_line] @ malformed_line # [answer_line, done_line])
      = process_lines (JSON_parse (\<lambda>s. s)) True False ([reasoning_line] @ [answer_line, done_line])"
    using malformed_line_dropped [where l = malformed_line and parse = "JSON_parse (\<lambda>s. s)"
        and sr = True and r = False and ?r0.0 = False and before = "[reasoning_line]"
        and after = "[answer_line, done_line]", OF a b c]
    by blast
  show ?thesis using a b c unfolding t r by simp
qed

text \<open>
  The claim as stated fails on a malformed payload that contains \<^verbatim>\<open>[DONE]\<close>: the line
  is not dropped, a sentinel event is written for it.
\<close>

theorem malformed_sentinel_counterexample:
  "startsWith malformed_done_line ''data: ''
   \<and> JSON_parse (\<lambda>s. s) (drop 6 malformed_done_line) = None
   \<and> process_line (JSON_parse (\<lambda>s. s)) SHOW_REASONING False malformed_done_line
       = (False, [Done])"
proof -
  have a: "startsWith malformed_done_line ''data: ''" by code_simp
  have c: "JSON_parse (\<lambda>s. s) (drop 6 malformed_done_line) = None" by code_simp
  have d: "process_line (JSON_parse (\<lambda>s. s)) SHOW_REASONING False malformed_done_line
       = (False, [Done])"
    by code_simp
  show ?thesis using a c d by simp
qed

section \<open>Reasoning spans: properties\<close>

lemma merge_convertible:
  assumes "convertible rc" and "convertible c"
  shows "merge sr inR rc c =
    ((if truthy_opt c then False else (sr \<and> truthy_opt rc) \<or> inR),
     Some (concat (map render (merge_fragments sr inR rc c))))"
  using assms
  by (cases rc; cases c) (auto simp: merge_def merge_fragments_def Let_def split: option.splits)

lemma well_formed_merge:
  "well_formed inR (merge_fragments sr inR rc c @ fs)
    = well_formed (if truthy_opt c then False else (sr \<and> truthy_opt rc) \<or> inR) fs"
  by (cases inR) (auto simp: merge_fragments_def Let_def)

lemma trace_well_formed:
  "list_all (convertible_line p) ls \<Longrightarrow> well_formed inR (trace p sr inR ls)"
proof (induction ls arbitrary: inR)
  case Nil
  show ?case by simp
next
  case (Cons l ls)
  show ?case
  proof (cases "line_delta p l")
    case None
    then show ?thesis using Cons by simp
  next
    case (Some d)
    have cv: "convertible (own d ''reasoning_content'')" "convertible (own d ''content'')"
      using Cons.prems Some by (simp_all add: convertible_line_def)
    show ?thesis
      using Some Cons.IH Cons.prems
      by (simp add: merge_convertible [OF cv] well_formed_merge)
  qed
qed

lemma delta_set_get:
  assumes "delta_of data = Some d"
  shows "delta_of (set_delta data d') = Some d'"
proof -
  obtain kvs where data: "data = JObj kvs"
    using assms by (cases data) (simp_all add: delta_of_def)
  obtain c where c: "map_of kvs ''choices'' = Some c"
    using assms data by (cases "map_of kvs ''choices''") (simp_all add: delta_of_def)
  obtain e where e: "index0 c = Some e"
    using assms data c by (cases "index0 c") (simp_all add: delta_of_def opt_chain_def)
  obtain ekvs where ek: "e = JObj ekvs"
    using assms data c e by (cases e) (simp_all add: delta_of_def opt_chain_def)
  show ?thesis
  proof (cases c)
    case (JArr xs)
    then obtain es where xs: "xs = e # es"
      using e by (cases xs) simp_all
    show ?thesis
      using data c JArr xs ek
      by (simp add: set_delta_def delta_of_def opt_chain_def update_conv')
  next
    case (JObj ckvs)
    then have "map_of ckvs ''0'' = Some e" using e by simp
    then show ?thesis
      using data c JObj ek
      by (simp add: set_delta_def delta_of_def opt_chain_def update_conv')
  next
    case (JStr t)
    then show ?thesis using e ek by (cases t) simp_all
  qed (use e in simp_all)
qed

lemma update_delta_text:
  assumes "\<not> is_object d \<Longrightarrow> out = []"
  shows "(case own (update_delta d out) ''content'' of Some (JStr t) \<Rightarrow> t | _ \<Rightarrow> []) = out"
proof (cases d)
  case (JObj kvs)
  show ?thesis
  proof (cases "out = []")
    case True
    show ?thesis
    proof (cases "map_of kvs ''content''")
      case None
      then show ?thesis using JObj True by (simp add: update_delta_def delete_conv' update_conv')
    next
      case (Some v)
      then show ?thesis
        using JObj True
        by (cases v) (simp_all add: update_delta_def delete_conv' update_conv')
    qed
  next
    case False
    then show ?thesis using JObj by (simp add: update_delta_def delete_conv' update_conv')
  qed
qed (use assms in \<open>simp_all add: update_delta_def\<close>)

lemma merge_not_object:
  assumes "\<not> is_object d"
  shows "merge sr inR (own d k1) (own d k2) = (inR, Some [])"
  using assms by (cases d) (simp_all add: merge_def)

lemma process_line_delta:
  assumes "line_delta p l = Some d"
  shows "\<exists>data. delta_of data = Some d \<and>
    process_line p sr inR l =
      (case merge sr inR (own d ''reasoning_content'') (own d ''content'') of
         (in', None) \<Rightarrow> (in', [])
       | (in', Some out) \<Rightarrow> (in', [Data (set_delta data (update_delta d out))]))"
  using assms
  by (auto simp: line_delta_def process_line_def transcode_event_def
      split: if_splits option.splits prod.splits)

lemma process_line_no_delta:
  assumes "line_delta p l = None"
  shows "fst (process_line p sr inR l) = inR
    \<and> concat (map event_text (snd (process_line p sr inR l))) = []"
proof -
  have falsy: "\<And>d. \<not> truthy d \<Longrightarrow> own d ''content'' = None"
    subgoal for d by (cases d) simp_all
    done
  show ?thesis
    using assms falsy
    by (auto simp: line_delta_def process_line_def transcode_event_def
        split: if_splits option.splits prod.splits)
qed

lemma process_line_text:
  assumes "line_delta p l = Some d"
    and "convertible (own d ''reasoning_content'')" and "convertible (own d ''content'')"
  shows "fst (process_line p sr inR l)
           = fst (merge sr inR (own d ''reasoning_content'') (own d ''content''))
    \<and> concat (map event_text (snd (process_line p sr inR l)))
           = concat (map render
               (merge_fragments sr inR (own d ''reasoning_content'') (own d ''content'')))"
proof -
  define out where "out = concat (map render
      (merge_fragments sr inR (own d ''reasoning_content'') (own d ''content'')))"
  obtain in' where m: "merge sr inR (own d ''reasoning_content'') (own d ''content'')
      = (in', Some out)"
    using merge_convertible [OF assms(2,3), of sr inR] by (simp add: out_def)
  obtain data where dd: "delta_of data = Some d"
    and pl: "process_line p sr inR l = (in', [Data (set_delta data (update_delta d out))])"
    using process_line_delta [OF assms(1), of sr inR] m by auto
  have no: "\<not> is_object d \<Longrightarrow> out = []"
    using m merge_not_object [of d sr inR "''reasoning_content''" "''content''"] by simp
  have tx: "event_text (Data (set_delta data (update_delta d out))) = out"
    using delta_set_get [OF dd, of "update_delta d out"] update_delta_text [OF no]
    by simp
  show ?thesis using pl m tx by (simp add: out_def)
qed

lemma lines_text:
  "list_all (convertible_line p) ls \<Longrightarrow>
   concat (map event_text (snd (process_lines p sr inR ls)))
     = concat (map render (trace p sr inR ls))"
proof (induction ls arbitrary: inR)
  case Nil
  show ?case by simp
next
  case (Cons l ls)
  obtain r1 o1 where p1: "process_line p sr inR l = (r1, o1)"
    by (cases "process_line p sr inR l") auto
  obtain r2 o2 where p2: "process_lines p sr r1 ls = (r2, o2)"
    by (cases "process_lines p sr r1 ls") auto
  have ih: "concat (map event_text o2) = concat (map render (trace p sr r1 ls))"
    using Cons.IH [of r1] Cons.prems p2 by simp
  show ?case
  proof (cases "line_delta p l")
    case None
    then show ?thesis
      using process_line_no_delta [OF None, of sr inR] p1 p2 ih by simp
  next
    case (Some d)
    have cv: "convertible (own d ''reasoning_content'')" "convertible (own d ''content'')"
      using Cons.prems Some by (simp_all add: convertible_line_def)
    show ?thesis
      using process_line_text [OF Some cv, of sr inR] Some p1 p2 ih by simp
  qed
qed

lemma merge_hidden_state:
  "fst (merge False False rc c) = False"
  by (cases rc; cases c) (auto simp: merge_def split: option.splits)

lemma trace_hidden:
  "Open \<notin> set (trace p False False ls) \<and> Close \<notin> set (trace p False False ls)"
proof (induction ls)
  case Nil
  show ?case by simp
next
  case (Cons l ls)
  show ?case
    using Cons
    by (cases "line_delta p l") (auto simp: merge_hidden_state merge_fragments_def)
qed

text \<open>
  C2 (reasoning-span markers), as the code has it. For a stream in which no string
  conversion of a fragment throws (every \<^verbatim>\<open>content\<close> and \<^verbatim>\<open>reasoning_content\<close> that
  is a string, or absent, qualifies): the pieces written form a well-formed list, so
  every opening marker is followed by exactly one closing marker, written right before
  the next ordinary content, when there is one; the content text of the events written
  is the concatenation of these pieces; and with reasoning hidden no marker is among
  them.
\<close>

theorem reasoning_span_invariant:
  assumes "list_all (convertible_line p) (stream_lines chunks)"
  shows "well_formed False (trace p sr False (stream_lines chunks))
    \<and> concat (map event_text (transcode p sr initial_state chunks))
        = concat (map render (trace p sr False (stream_lines chunks)))
    \<and> Open \<notin> set (trace p False False (stream_lines chunks))
    \<and> Close \<notin> set (trace p False False (stream_lines chunks))"
proof -
  have t: "transcode p sr initial_state chunks
      = snd (process_lines p sr False (stream_lines chunks))"
    by (simp add: transcode_lines initial_state_def stream_lines_def)
  show ?thesis
    using trace_well_formed [OF assms, of False sr] lines_text [OF assms, of sr False]
      trace_hidden [of p "stream_lines chunks"]
    by (simp add: t)
qed

theorem reasoning_span_invariant_witness:
  "list_all (convertible_line (JSON_parse (\<lambda>s. s))) (stream_lines [example_stream])
   \<and> trace (JSON_parse (\<lambda>s. s)) True False (stream_lines [example_stream])
       = [Open, Reasoning ''thinking...'', Close, Content ''answer'']
   \<and> well_formed False [Open, Reasoning ''thinking...'', Close, Content ''answer'']
   \<and> concat (map event_text (transcode (JSON_parse (\<lambda>s. s)) True initial_state [example_stream]))
       = ''<think>\<newline>thinking...\<newline></think>\<newline>\<newline>answer''"
proof -
  have a: "list_all (convertible_line (JSON_parse (\<lambda>s. s))) (stream_lines [example_stream])"
    by code_simp
  have t: "trace (JSON_parse (\<lambda>s. s)) True False (stream_lines [example_stream])
       = [Open, Reasoning ''thinking...'', Close, Content ''answer'']"
    by code_simp
  show ?thesis
    using a reasoning_span_invariant [OF a, of True]
    unfolding t by (simp add: think_open_def think_close_def)
qed

text \<open>
  The claim as stated fails on a stream that ends after reasoning text: the opening
  marker has been written and no closing marker follows, at the end of the stream or
  anywhere.
\<close>

theorem unclosed_span_counterexample:
  "transcode (JSON_parse (\<lambda>s. s)) True initial_state [reasoning_line @ [CHR 0x0A]]
     = [content_event ''<think>\<newline>thinking...'']
   \<and> trace (JSON_parse (\<lambda>s. s)) True False (stream_lines [reasoning_line @ [CHR 0x0A]])
     = [Open, Reasoning ''thinking...'']
   \<and> \<not> includes_str ''<think>\<newline>thinking...'' think_close"
proof -
  have a: "transcode (JSON_parse (\<lambda>s. s)) True initial_state [reasoning_line @ [CHR 0x0A]]
     = [content_event ''<think>\<newline>thinking...'']"
    by code_simp
  have b: "trace (JSON_parse (\<lambda>s. s)) True False (stream_lines [reasoning_line @ [CHR 0x0A]])
     = [Open, Reasoning ''thinking...'']"
    by code_simp
  have c: "\<not> includes_str ''<think>\<newline>thinking...'' think_close"
    by code_simp
  show ?thesis using a b c by simp
qed

section \<open>Implicit default model\<close>











end
